theory Spec2Isabelle
  imports Main "HOL-Library.AList"
begin

section \<open>Values, keyword arguments and callables\<close>

text \<open>
  A Python value other than \<open>None\<close> is an element of the type parameter \<open>'v\<close>; a value
  that may be \<open>None\<close> is a \<open>'v option\<close>. A Python \<open>dict\<close> is an association list in
  insertion order: \<open>d[k] = v\<close> is \<open>AList.update k v d\<close> (the key keeps its place, a new
  key goes to the end), \<open>d.pop(k, None)\<close> is \<open>AList.delete k d\<close> together with the value
  \<open>map_of d k\<close>, \<open>d.get(k)\<close> is \<open>map_of d k\<close> and \<open>k in d\<close> is \<open>k \<in> fst ` set d\<close>.
  The keyword arguments of a call are such a dictionary from parameter names to values.
\<close>

type_synonym 'v kwargs = "(string \<times> 'v) list"

text \<open>
  What a call can raise: \<open>KeyError\<close> is the error of a failed subscript \<open>d[k]\<close> inside the
  framework; \<open>Raised e\<close> is an exception \<open>e\<close> raised by a plugin's own code.
\<close>

datatype 'e exn = KeyError string | Raised 'e

text \<open>The parameter kinds of \<open>inspect.Parameter\<close>.\<close>

datatype param_kind =
  POSITIONAL_ONLY | POSITIONAL_OR_KEYWORD | VAR_POSITIONAL | KEYWORD_ONLY | VAR_KEYWORD

record param =
  param_name :: string
  kind :: param_kind

record code_obj =
  co_argcount :: nat
  co_kwonlyargcount :: nat
  co_varnames :: "string list"

text \<open>
  A callable object, as far as the framework looks at it: \<open>signature\<close> is the ordered
  parameter list of \<open>inspect.signature(func).parameters\<close>, or \<open>None\<close> when that call raises
  \<open>ValueError\<close> or \<open>TypeError\<close>; \<open>code_attr\<close> is \<open>getattr(func, "__code__", None)\<close>;
  \<open>run\<close> is the call \<open>func(**kwargs)\<close>, which returns a value, returns \<open>None\<close>
  (\<open>Inr None\<close>) or raises (\<open>Inl\<close>).
\<close>

record ('v, 'e) callable =
  signature :: "param list option"
  code_attr :: "code_obj option"
  run :: "'v kwargs \<Rightarrow> 'e + 'v option"

text \<open>\<open>_get_argnames\<close>: the result \<open>None\<close> stands for "pass everything".\<close>

definition get_argnames :: "('v, 'e) callable \<Rightarrow> string list option" where
  "get_argnames f =
     (case signature f of
        Some params \<Rightarrow>
          (if list_ex (\<lambda>p. kind p = VAR_KEYWORD) params then None
           else Some (map param_name
                  (filter (\<lambda>p. kind p = POSITIONAL_OR_KEYWORD \<or> kind p = KEYWORD_ONLY) params)))
      | None \<Rightarrow>
          (case code_attr f of
             Some c \<Rightarrow> Some (take (co_argcount c + co_kwonlyargcount c) (co_varnames c))
           | None \<Rightarrow> None))"

section \<open>Plugin objects\<close>

text \<open>
  What \<open>register\<close> reads off an entry of a class dictionary once a \<open>classmethod\<close> or
  \<open>staticmethod\<close> wrapper is removed: \<open>callable(func)\<close> and the truth value of
  \<open>getattr(func, "_jac_hookimpl", False)\<close>.
\<close>

record pyfunc =
  is_callable :: bool
  impl_attr :: bool

datatype raw = Plain pyfunc | ClassMethod pyfunc | StaticMethod pyfunc

text \<open>
  A plugin object. \<open>ident\<close> is \<open>id(plugin)\<close>: two references are the same object
  (\<open>is\<close>) exactly when their \<open>ident\<close> agree. \<open>dunder_name\<close> is
  \<open>getattr(plugin, "__name__", None)\<close>, \<open>type_name\<close> is \<open>type(plugin).__name__\<close>,
  \<open>mro\<close> lists \<open>vars(klass).items()\<close> for every class of
  \<open>inspect.getmro(type(plugin) if not isinstance(plugin, type) else plugin)\<close>, and
  \<open>attr n\<close> is \<open>getattr(plugin, n, None)\<close>.
\<close>

record ('v, 'e) plugin_obj =
  ident :: nat
  dunder_name :: "string option"
  type_name :: string
  mro :: "(string \<times> raw) list list"
  attr :: "string \<Rightarrow> ('v, 'e) callable option"

section \<open>Hook implementations and hook callers\<close>

record ('v, 'e) HookImpl =
  func :: "('v, 'e) callable"
  plugin :: "('v, 'e) plugin_obj"
  plugin_name :: string
  argnames :: "string list option"

text \<open>\<open>HookImpl.__init__\<close>.\<close>

definition new_HookImpl ::
  "('v, 'e) callable \<Rightarrow> ('v, 'e) plugin_obj \<Rightarrow> string \<Rightarrow> ('v, 'e) HookImpl" where
  "new_HookImpl f p n = \<lparr>func = f, plugin = p, plugin_name = n, argnames = get_argnames f\<rparr>"

record ('v, 'e) HookCaller =
  name :: string
  hookimpls :: "('v, 'e) HookImpl list"
  firstresult :: bool

text \<open>\<open>HookCaller.__init__\<close>, \<open>_add_hookimpl\<close>, \<open>_remove_plugin\<close> and \<open>get_hookimpls\<close>.\<close>

definition new_HookCaller :: "string \<Rightarrow> bool \<Rightarrow> ('v, 'e) HookCaller" where
  "new_HookCaller n fr = \<lparr>name = n, hookimpls = [], firstresult = fr\<rparr>"

definition add_hookimpl :: "('v, 'e) HookCaller \<Rightarrow> ('v, 'e) HookImpl \<Rightarrow> ('v, 'e) HookCaller" where
  "add_hookimpl hc impl = hc\<lparr>hookimpls := hookimpls hc @ [impl]\<rparr>"

definition remove_plugin :: "('v, 'e) HookCaller \<Rightarrow> ('v, 'e) plugin_obj \<Rightarrow> ('v, 'e) HookCaller" where
  "remove_plugin hc p =
     hc\<lparr>hookimpls := filter (\<lambda>h. ident (plugin h) \<noteq> ident p) (hookimpls hc)\<rparr>"

definition get_hookimpls :: "('v, 'e) HookCaller \<Rightarrow> ('v, 'e) HookImpl list" where
  "get_hookimpls hc = hookimpls hc"

text \<open>
  The dictionary comprehension
  \<open>{name: kwargs[name] for name in impl.argnames if name in kwargs}\<close>, built entry by
  entry into \<open>acc\<close>. The subscript \<open>kwargs[name]\<close> raises \<open>KeyError\<close> on a missing key.
\<close>

fun dict_comp :: "string list \<Rightarrow> 'v kwargs \<Rightarrow> 'v kwargs \<Rightarrow> 'e exn + 'v kwargs" where
  "dict_comp [] kw acc = Inr acc"
| "dict_comp (n # ns) kw acc =
     (if n \<in> fst ` set kw then
        (case map_of kw n of
           None \<Rightarrow> Inl (KeyError n)
         | Some v \<Rightarrow> dict_comp ns kw (AList.update n v acc))
      else dict_comp ns kw acc)"

text \<open>
  An invocation is an effect of the source. The model returns, beside the outcome, the
  invocations made, in the order they were made: each is the implementation called and
  the keyword arguments its function received.
\<close>

type_synonym ('v, 'e) invocation = "('v, 'e) HookImpl \<times> 'v kwargs"

text \<open>\<open>HookCaller._call_impl\<close>.\<close>

definition call_impl ::
  "('v, 'e) HookImpl \<Rightarrow> 'v kwargs \<Rightarrow> ('v, 'e) invocation list \<times> ('e exn + 'v option)" where
  "call_impl impl kw =
     (case argnames impl of
        None \<Rightarrow> ([(impl, kw)], map_sum Raised id (run (func impl) kw))
      | Some names \<Rightarrow>
          (case dict_comp names kw [] of
             Inl e \<Rightarrow> ([], Inl e)
           | Inr args \<Rightarrow> ([(impl, args)], map_sum Raised id (run (func impl) args))))"

text \<open>
  The two loops of \<open>HookCaller.__call__\<close> over \<open>reversed(self._hookimpls)\<close>: the list
  argument is the part of the reversed list still to visit. An exception ends the loop.
\<close>

fun call_first ::
  "('v, 'e) HookImpl list \<Rightarrow> 'v kwargs \<Rightarrow> ('v, 'e) invocation list \<times> ('e exn + 'v option)" where
  "call_first [] kw = ([], Inr None)"
| "call_first (impl # rest) kw =
     (case call_impl impl kw of
        (t, Inl e) \<Rightarrow> (t, Inl e)
      | (t, Inr (Some r)) \<Rightarrow> (t, Inr (Some r))
      | (t, Inr None) \<Rightarrow> (case call_first rest kw of (t', out) \<Rightarrow> (t @ t', out)))"

fun call_all ::
  "('v, 'e) HookImpl list \<Rightarrow> 'v kwargs \<Rightarrow> 'v list \<Rightarrow>
     ('v, 'e) invocation list \<times> ('e exn + 'v list)" where
  "call_all [] kw results = ([], Inr results)"
| "call_all (impl # rest) kw results =
     (case call_impl impl kw of
        (t, Inl e) \<Rightarrow> (t, Inl e)
      | (t, Inr result) \<Rightarrow>
          (case call_all rest kw (case result of None \<Rightarrow> results | Some r \<Rightarrow> results @ [r]) of
             (t', out) \<Rightarrow> (t @ t', out)))"

text \<open>
  What \<open>__call__\<close> returns: a value or \<open>None\<close> for a first-result hook, a list for a
  collect-all hook.
\<close>

datatype 'v hook_result = Single "'v option" | Collected "'v list"

definition HookCaller_call ::
  "('v, 'e) HookCaller \<Rightarrow> 'v kwargs \<Rightarrow> ('v, 'e) invocation list \<times> ('e exn + 'v hook_result)" where
  "HookCaller_call hc kw =
     (if firstresult hc then
        (case call_first (rev (hookimpls hc)) kw of (t, out) \<Rightarrow> (t, map_sum id Single out))
      else
        (case call_all (rev (hookimpls hc)) kw [] of (t, out) \<Rightarrow> (t, map_sum id Collected out)))"

section \<open>The plugin manager\<close>

text \<open>
  The installed-package directory that \<open>load_setuptools_entrypoints\<close> reads is an input:
  the list \<open>importlib.metadata.distributions()\<close>, each distribution with its metadata and
  its entry points. \<open>ep_group\<close> and \<open>ep_name\<close> are \<open>ep.group\<close> and \<open>ep.name\<close>;
  \<open>ep_load\<close> is the outcome of \<open>ep.load()\<close>: the loaded object, or an \<open>Exception\<close>.
\<close>

record ('v, 'e) entry_point =
  ep_group :: string
  ep_name :: string
  ep_load :: "'e + ('v, 'e) plugin_obj"

record ('v, 'e) distribution =
  metadata :: "(string \<times> string) list"
  entry_points :: "('v, 'e) entry_point list"

datatype ('v, 'e) DistFacade = DistFacade "('v, 'e) distribution"

text \<open>
  The manager. The relay object \<open>self.hook\<close> is two things. \<open>hook\<close> is its attribute
  dictionary \<open>vars(self.hook)\<close>, which only \<open>setattr\<close> (\<open>AList.update\<close>) fills.
  \<open>hook_class_attrs\<close> lists the names of the attributes the object has from its class
  \<open>HookRelay\<close> and from \<open>object\<close>, whatever its dictionary holds (\<open>__repr__\<close>,
  \<open>__init__\<close>, \<open>__doc__\<close>, ...). For a name \<open>n\<close> outside that list,
  \<open>getattr(self.hook, n, None)\<close> is \<open>map_of (hook pm) n\<close>. For a name of the list it is an
  object that is not a \<open>HookCaller\<close> (a method wrapper, a string, a dictionary, the
  class), on which \<open>hook._add_hookimpl(impl)\<close> and \<open>hook._firstresult = ...\<close> raise
  \<open>AttributeError\<close>; or it is \<open>None\<close> and the attribute cannot be set (\<open>__weakref__\<close>), so
  that \<open>setattr\<close> raises \<open>AttributeError\<close>.
\<close>

datatype relay_error = AttributeError string

record ('v, 'e) PluginManager =
  project_name :: string
  name2plugin :: "(string \<times> ('v, 'e) plugin_obj) list"
  plugin2name :: "(nat \<times> string) list"
  plugin_distinfo :: "(('v, 'e) plugin_obj \<times> ('v, 'e) DistFacade) list"
  hook :: "(string \<times> ('v, 'e) HookCaller) list"
  hook_class_attrs :: "string list"

text \<open>The names of \<open>dir(HookRelay())\<close> in CPython 3.12.\<close>

definition HookRelay_attrs :: "string list" where
  "HookRelay_attrs =
     [''__class__'', ''__delattr__'', ''__dict__'', ''__dir__'', ''__doc__'', ''__eq__'',
      ''__format__'', ''__ge__'', ''__getattribute__'', ''__getstate__'', ''__gt__'',
      ''__hash__'', ''__init__'', ''__init_subclass__'', ''__le__'', ''__lt__'',
      ''__module__'', ''__ne__'', ''__new__'', ''__reduce__'', ''__reduce_ex__'',
      ''__repr__'', ''__setattr__'', ''__sizeof__'', ''__str__'', ''__subclasshook__'',
      ''__weakref__'']"

definition new_PluginManager :: "string \<Rightarrow> ('v, 'e) PluginManager" where
  "new_PluginManager pn =
     \<lparr>project_name = pn, name2plugin = [], plugin2name = [], plugin_distinfo = [], hook = [],
      hook_class_attrs = HookRelay_attrs\<rparr>"

text \<open>\<open>_canonical_name\<close>: the empty string is false in \<open>or\<close>.\<close>

definition canonical_name :: "('v, 'e) plugin_obj \<Rightarrow> string" where
  "canonical_name p =
     (case dunder_name p of
        Some n \<Rightarrow> if n \<noteq> [] then n else type_name p
      | None \<Rightarrow> type_name p)"

text \<open>The unwrapping \<open>raw.__func__ if isinstance(raw, (classmethod, staticmethod)) else raw\<close>.\<close>

fun unwrap :: "raw \<Rightarrow> pyfunc" where
  "unwrap (Plain f) = f"
| "unwrap (ClassMethod f) = f"
| "unwrap (StaticMethod f) = f"

text \<open>
  The inner loop of \<open>register\<close> over \<open>vars(klass).items()\<close>; the state is the set
  \<open>seen\<close> and the relay's dictionary, and the third component of the result is the
  exception that ended the loop, if one did. \<open>cattrs\<close> is \<open>hook_class_attrs\<close>: wiring a
  member of such a name raises \<open>AttributeError\<close> and leaves the dictionary as it is. The
  caller found or created for another \<open>attr_name\<close> is the object stored under that name,
  so appending to it updates that entry.
\<close>

fun register_attrs ::
  "('v, 'e) plugin_obj \<Rightarrow> string \<Rightarrow> string list \<Rightarrow> (string \<times> raw) list \<Rightarrow>
     string set \<times> (string \<times> ('v, 'e) HookCaller) list \<Rightarrow>
     string set \<times> (string \<times> ('v, 'e) HookCaller) list \<times> relay_error option" where
  "register_attrs p pn cattrs [] (seen, hooks) = (seen, hooks, None)"
| "register_attrs p pn cattrs ((attr_name, r) # items) (seen, hooks) =
     (if attr_name \<in> seen then register_attrs p pn cattrs items (seen, hooks)
      else if \<not> is_callable (unwrap r) then
        register_attrs p pn cattrs items (insert attr_name seen, hooks)
      else if \<not> impl_attr (unwrap r) then
        register_attrs p pn cattrs items (insert attr_name seen, hooks)
      else
        (case attr p attr_name of
           None \<Rightarrow> register_attrs p pn cattrs items (insert attr_name seen, hooks)
         | Some method \<Rightarrow>
             if attr_name \<in> set cattrs then
               (insert attr_name seen, hooks, Some (AttributeError attr_name))
             else
               register_attrs p pn cattrs items
                 (insert attr_name seen,
                  AList.update attr_name
                    (add_hookimpl
                       (case map_of hooks attr_name of
                          None \<Rightarrow> new_HookCaller attr_name False
                        | Some hc \<Rightarrow> hc)
                       (new_HookImpl method p pn))
                    hooks)))"

text \<open>
  The outer loop of \<open>register\<close> over the classes of the method-resolution order; an
  exception ends it.
\<close>

fun register_mro ::
  "('v, 'e) plugin_obj \<Rightarrow> string \<Rightarrow> string list \<Rightarrow> (string \<times> raw) list list \<Rightarrow>
     string set \<times> (string \<times> ('v, 'e) HookCaller) list \<Rightarrow>
     string set \<times> (string \<times> ('v, 'e) HookCaller) list \<times> relay_error option" where
  "register_mro p pn cattrs [] (seen, hooks) = (seen, hooks, None)"
| "register_mro p pn cattrs (klass # rest) (seen, hooks) =
     (case register_attrs p pn cattrs klass (seen, hooks) of
        (seen', hooks', Some e) \<Rightarrow> (seen', hooks', Some e)
      | (seen', hooks', None) \<Rightarrow> register_mro p pn cattrs rest (seen', hooks'))"

text \<open>The expression \<open>name or _canonical_name(plugin)\<close>.\<close>

definition name_or_canonical :: "string option \<Rightarrow> ('v, 'e) plugin_obj \<Rightarrow> string" where
  "name_or_canonical nm p =
     (case nm of
        Some n \<Rightarrow> if n \<noteq> [] then n else canonical_name p
      | None \<Rightarrow> canonical_name p)"

text \<open>
  \<open>PluginManager.register\<close>: the new manager state, and the value returned (\<open>Inr\<close>) or
  the exception raised (\<open>Inl\<close>). An exception leaves the tables bound and the hooks wired
  so far. The plugin argument is an object other than \<open>None\<close>.
\<close>

definition register ::
  "('v, 'e) PluginManager \<Rightarrow> ('v, 'e) plugin_obj \<Rightarrow> string option \<Rightarrow>
     ('v, 'e) PluginManager \<times> (relay_error + string option)" where
  "register pm p nm =
     (let pname = name_or_canonical nm p
      in if ident p \<in> fst ` set (plugin2name pm) then (pm, Inr None)
         else
           (let pm1 = pm\<lparr>name2plugin := AList.update pname p (name2plugin pm),
                         plugin2name := AList.update (ident p) pname (plugin2name pm)\<rparr>
            in case register_mro p pname (hook_class_attrs pm1) (mro p) ({}, hook pm1) of
                 (seen, hooks', None) \<Rightarrow> (pm1\<lparr>hook := hooks'\<rparr>, Inr (Some pname))
               | (seen, hooks', Some e) \<Rightarrow> (pm1\<lparr>hook := hooks'\<rparr>, Inl e)))"

text \<open>
  \<open>PluginManager.unregister\<close>: \<open>None\<close> for an argument is Python's \<open>None\<close>.
\<close>

definition unregister ::
  "('v, 'e) PluginManager \<Rightarrow> ('v, 'e) plugin_obj option \<Rightarrow> string option \<Rightarrow>
     ('v, 'e) PluginManager \<times> ('v, 'e) plugin_obj option" where
  "unregister pm plg nm =
     (let plg1 = (case plg of
                    None \<Rightarrow> (case nm of Some n \<Rightarrow> map_of (name2plugin pm) n | None \<Rightarrow> None)
                  | Some p \<Rightarrow> Some p)
      in case plg1 of
           None \<Rightarrow> (pm, None)
         | Some p \<Rightarrow>
             (let pname = map_of (plugin2name pm) (ident p);
                  p2n = AList.delete (ident p) (plugin2name pm);
                  n2p1 = (case pname of
                            Some n \<Rightarrow> AList.delete n (name2plugin pm)
                          | None \<Rightarrow> name2plugin pm);
                  n2p2 = (case nm of
                            Some n \<Rightarrow> if Some n \<noteq> pname then AList.delete n n2p1 else n2p1
                          | None \<Rightarrow> n2p1)
              in (pm\<lparr>name2plugin := n2p2, plugin2name := p2n,
                     hook := map (\<lambda>(attr_name, hc). (attr_name, remove_plugin hc p)) (hook pm)\<rparr>,
                  Some p)))"

definition is_registered :: "('v, 'e) PluginManager \<Rightarrow> ('v, 'e) plugin_obj \<Rightarrow> bool" where
  "is_registered pm p \<longleftrightarrow> ident p \<in> fst ` set (plugin2name pm)"

definition list_name_plugin :: "('v, 'e) PluginManager \<Rightarrow> (string \<times> ('v, 'e) plugin_obj) list" where
  "list_name_plugin pm = name2plugin pm"

definition list_plugin_distinfo ::
  "('v, 'e) PluginManager \<Rightarrow> (('v, 'e) plugin_obj \<times> ('v, 'e) DistFacade) list" where
  "list_plugin_distinfo pm = plugin_distinfo pm"








section \<open>Sequences of operations and properties of manager states\<close>

text \<open>
  A sequence of calls on one manager. The state after a \<open>register\<close> call that raised is the
  state it left behind, for a caller that catches the exception and goes on.
\<close>

datatype ('v, 'e) operation =
  Register "('v, 'e) plugin_obj" "string option"
| Unregister "('v, 'e) plugin_obj option" "string option"

fun apply_operation :: "('v, 'e) PluginManager \<Rightarrow> ('v, 'e) operation \<Rightarrow> ('v, 'e) PluginManager" where
  "apply_operation pm (Register p nm) = fst (register pm p nm)"
| "apply_operation pm (Unregister plg nm) = fst (unregister pm plg nm)"

fun run_operations ::
  "('v, 'e) PluginManager \<Rightarrow> ('v, 'e) operation list \<Rightarrow> ('v, 'e) PluginManager" where
  "run_operations pm [] = pm"
| "run_operations pm (x # xs) = run_operations (apply_operation pm x) xs"

text \<open>
  Every entry of the name table points to a plugin whose identity is bound to that same
  name in the identity table, and neither table has a key twice.
\<close>

definition names_registered :: "('v, 'e) PluginManager \<Rightarrow> bool" where
  "names_registered pm \<longleftrightarrow>
     distinct (map fst (plugin2name pm)) \<and> distinct (map fst (name2plugin pm)) \<and>
     list_all (\<lambda>(n, p). map_of (plugin2name pm) (ident p) = Some n) (name2plugin pm)"

text \<open>
  The converse: the name of every registered identity is bound, in the name table, to the
  plugin of that identity.
\<close>

definition identities_named :: "('v, 'e) PluginManager \<Rightarrow> bool" where
  "identities_named pm \<longleftrightarrow>
     list_all (\<lambda>(i, n). map_option ident (map_of (name2plugin pm) n) = Some i) (plugin2name pm)"

text \<open>Every implementation record of every hook caller belongs to a registered plugin.\<close>

definition hookimpls_registered :: "('v, 'e) PluginManager \<Rightarrow> bool" where
  "hookimpls_registered pm \<longleftrightarrow>
     list_all (\<lambda>(attr_name, hc). list_all (\<lambda>h. is_registered pm (plugin h)) (hookimpls hc))
       (hook pm)"




section \<open>Example plugins\<close>

text \<open>
  A function \<open>def f(p1, ..., pn)\<close> with the body \<open>body\<close>, and a function
  \<open>def f(**kwargs)\<close>.
\<close>

definition ex_def :: "string list \<Rightarrow> ('v kwargs \<Rightarrow> 'e + 'v option) \<Rightarrow> ('v, 'e) callable" where
  "ex_def ps body =
     \<lparr>signature = Some (map (\<lambda>n. \<lparr>param_name = n, kind = POSITIONAL_OR_KEYWORD\<rparr>) ps),
      code_attr = None, run = body\<rparr>"

definition ex_def_kwargs :: "('v kwargs \<Rightarrow> 'e + 'v option) \<Rightarrow> ('v, 'e) callable" where
  "ex_def_kwargs body =
     \<lparr>signature = Some [\<lparr>param_name = ''kwargs'', kind = VAR_KEYWORD\<rparr>],
      code_attr = None, run = body\<rparr>"

text \<open>
  An instance, with identity \<open>i\<close>, of a class named \<open>tn\<close> that defines the marked methods
  \<open>ms\<close> and inherits from \<open>object\<close>.
\<close>

definition ex_plugin ::
  "nat \<Rightarrow> string \<Rightarrow> (string \<times> ('v, 'e) callable) list \<Rightarrow> ('v, 'e) plugin_obj" where
  "ex_plugin i tn ms =
     \<lparr>ident = i, dunder_name = None, type_name = tn,
      mro = [map (\<lambda>(n, f). (n, Plain \<lparr>is_callable = True, impl_attr = True\<rparr>)) ms,
             [(''__init__'', Plain \<lparr>is_callable = True, impl_attr = False\<rparr>)]],
      attr = map_of ms\<rparr>"

text \<open>
  \<open>A.h(x)\<close> returns \<open>x\<close> (and the call raises \<open>TypeError\<close> when \<open>x\<close> is not passed),
  \<open>B.h(y)\<close> returns \<open>None\<close>, \<open>C.h(**kwargs)\<close> returns \<open>len(kwargs)\<close>.
\<close>

definition ex_hA :: "(int, string) callable" where
  "ex_hA = ex_def [''x'']
     (\<lambda>kw. case map_of kw ''x'' of None \<Rightarrow> Inl ''TypeError'' | Some v \<Rightarrow> Inr (Some v))"

definition ex_hB :: "(int, string) callable" where
  "ex_hB = ex_def [''y''] (\<lambda>kw. Inr None)"

definition ex_hC :: "(int, string) callable" where
  "ex_hC = ex_def_kwargs (\<lambda>kw. Inr (Some (int (length kw))))"

definition ex_A :: "(int, string) plugin_obj" where
  "ex_A = ex_plugin 1 ''A'' [(''h'', ex_hA)]"

definition ex_B :: "(int, string) plugin_obj" where
  "ex_B = ex_plugin 2 ''B'' [(''h'', ex_hB)]"

definition ex_C :: "(int, string) plugin_obj" where
  "ex_C = ex_plugin 3 ''C'' [(''h'', ex_hC)]"

text \<open>A second instance of the class of \<open>A\<close>.\<close>

definition ex_A2 :: "(int, string) plugin_obj" where
  "ex_A2 = ex_plugin 5 ''A'' [(''h'', ex_hA)]"


text \<open>\<open>D\<close> has no marked method.\<close>

definition ex_D :: "(int, string) plugin_obj" where
  "ex_D = ex_plugin 4 ''D'' []"

definition ex_implA :: "(int, string) HookImpl" where
  "ex_implA = \<lparr>func = ex_hA, plugin = ex_A, plugin_name = ''A'', argnames = Some [''x'']\<rparr>"

definition ex_implB :: "(int, string) HookImpl" where
  "ex_implB = \<lparr>func = ex_hB, plugin = ex_B, plugin_name = ''B'', argnames = Some [''y'']\<rparr>"

definition ex_implC :: "(int, string) HookImpl" where
  "ex_implC = \<lparr>func = ex_hC, plugin = ex_C, plugin_name = ''C'', argnames = None\<rparr>"

definition ex_pm0 :: "(int, string) PluginManager" where
  "ex_pm0 = new_PluginManager ''jac''"

text \<open>
  The hook caller of \<open>h\<close> and the manager after \<open>A\<close>, \<open>B\<close> and \<open>C\<close> were registered in
  that order, and the keyword arguments of the dispatch \<open>h(x=7, y=2)\<close>.
\<close>

definition ex_hook :: "(int, string) HookCaller" where
  "ex_hook = \<lparr>name = ''h'', hookimpls = [ex_implA, ex_implB, ex_implC], firstresult = False\<rparr>"

definition ex_pm3 :: "(int, string) PluginManager" where
  "ex_pm3 =
     \<lparr>project_name = ''jac'',
      name2plugin = [(''A'', ex_A), (''B'', ex_B), (''C'', ex_C)],
      plugin2name = [(1, ''A''), (2, ''B''), (3, ''C'')],
      plugin_distinfo = [],
      hook = [(''h'', ex_hook)],
      hook_class_attrs = HookRelay_attrs\<rparr>"




definition ex_kw :: "int kwargs" where
  "ex_kw = [(''x'', 7), (''y'', 2)]"

section \<open>Facts about the examples\<close>

lemmas ex_defs = ex_def_def ex_def_kwargs_def ex_plugin_def ex_hA_def ex_hB_def ex_hC_def
  ex_A_def ex_A2_def ex_B_def ex_C_def ex_D_def ex_implA_def ex_implB_def ex_implC_def ex_pm0_def ex_hook_def
  ex_pm3_def ex_kw_def

lemmas manager_defs = register_def unregister_def new_PluginManager_def canonical_name_def
  name_or_canonical_def HookRelay_attrs_def
  new_HookImpl_def new_HookCaller_def add_hookimpl_def remove_plugin_def get_argnames_def
  is_registered_def Let_def

lemma ex_pm3_registered:
  "run_operations ex_pm0 [Register ex_A None, Register ex_B None, Register ex_C None] = ex_pm3"
  by (simp add: ex_defs manager_defs)

section \<open>Argument filtering\<close>

lemma in_keys_iff: "k \<in> fst ` set kw \<longleftrightarrow> map_of kw k \<noteq> None"
  by (simp add: map_of_eq_None_iff)

text \<open>The comprehension never raises: it is a fold of dictionary updates.\<close>

lemma dict_comp_fold:
  "dict_comp ns kw acc =
     Inr (fold (\<lambda>n a. case map_of kw n of None \<Rightarrow> a | Some v \<Rightarrow> AList.update n v a) ns acc)"
  by (induction ns arbitrary: acc) (auto simp: in_keys_iff split: option.splits)

lemma fold_update_distinct:
  "distinct (map fst acc) \<Longrightarrow>
   distinct (map fst
     (fold (\<lambda>n a. case map_of kw n of None \<Rightarrow> a | Some v \<Rightarrow> AList.update n v a) ns acc))"
  by (induction ns arbitrary: acc) (auto simp: distinct_update split: option.splits)

lemma fold_update_map_of:
  "map_of (fold (\<lambda>n a. case map_of kw n of None \<Rightarrow> a | Some v \<Rightarrow> AList.update n v a) ns acc) k =
     (if k \<in> set ns \<and> map_of kw k \<noteq> None then map_of kw k else map_of acc k)"
  by (induction ns arbitrary: acc) (auto simp: update_conv' split: option.splits)

text \<open>
  C5. For every implementation and every keyword-argument dictionary, \<open>_call_impl\<close>
  makes exactly one invocation of the implementation's function and its outcome is that
  call's outcome (a value, \<open>None\<close>, or the exception the function raised: never a
  \<open>KeyError\<close> of the framework). When \<open>argnames\<close> is \<open>None\<close> the function receives the
  full dictionary; otherwise it receives a dictionary that, as a finite map, is the
  supplied one restricted to the names in \<open>argnames\<close>, so names of \<open>argnames\<close> that were
  not supplied are left out.
\<close>

theorem call_impl_kwargs:
  "\<exists>args. call_impl impl kw = ([(impl, args)], map_sum Raised id (run (func impl) args)) \<and>
     (case argnames impl of
        None \<Rightarrow> args = kw
      | Some names \<Rightarrow> distinct (map fst args) \<and> map_of args = map_of kw |` set names)"
proof (cases "argnames impl")
  case None
  then show ?thesis by (simp add: call_impl_def)
next
  case (Some names)
  then show ?thesis
    by (simp add: call_impl_def dict_comp_fold fold_update_distinct fold_update_map_of
        fun_eq_iff restrict_map_def)
qed

text \<open>
  At \<open>h(x=7, y=2)\<close>: \<open>A.h(x)\<close> receives \<open>x=7\<close> only and \<open>C.h(**kwargs)\<close> receives both;
  at \<open>h(y=2)\<close>, \<open>A.h\<close> is called with no argument and the error is the function's own.
\<close>

theorem call_impl_kwargs_witness:
  "call_impl ex_implA ex_kw = ([(ex_implA, [(''x'', 7)])], Inr (Some 7)) \<and>
   call_impl ex_implC ex_kw = ([(ex_implC, [(''x'', 7), (''y'', 2)])], Inr (Some 2)) \<and>
   call_impl ex_implA [(''y'', 2)] = ([(ex_implA, [])], Inl (Raised ''TypeError''))"
  using call_impl_kwargs [of ex_implA ex_kw] call_impl_kwargs [of ex_implC ex_kw]
    call_impl_kwargs [of ex_implA "[(''y'', 2)]"]
  by (simp add: call_impl_def ex_defs)

section \<open>Dispatch\<close>

text \<open>Every call of \<open>_call_impl\<close> invokes the implementation, once.\<close>

lemma call_impl_trace: "map fst (fst (call_impl impl kw)) = [impl]"
  by (simp add: call_impl_def dict_comp_fold split: option.splits)

lemma call_first_find:
  "case find (\<lambda>i. snd (call_impl i kw) \<noteq> Inr None) xs of
     None \<Rightarrow> map fst (fst (call_first xs kw)) = xs \<and> snd (call_first xs kw) = Inr None
   | Some i \<Rightarrow>
       map fst (fst (call_first xs kw)) =
         takeWhile (\<lambda>i. snd (call_impl i kw) = Inr None) xs @ [i] \<and>
       snd (call_first xs kw) = snd (call_impl i kw)"
proof (induction xs)
  case Nil
  show ?case by simp
next
  case (Cons x xs)
  obtain t out where c: "call_impl x kw = (t, out)" by (cases "call_impl x kw")
  have t: "map fst t = [x]" using call_impl_trace [of x kw] c by simp
  show ?case
  proof (cases "out = Inr None")
    case True
    with Cons c t show ?thesis
      by (auto split: option.splits prod.splits)
  next
    case False
    with c t show ?thesis
      by (cases out) (auto split: option.splits)
  qed
qed

lemma call_all_find:
  "case find (\<lambda>i. isl (snd (call_impl i kw))) xs of
     None \<Rightarrow> map fst (fst (call_all xs kw acc)) = xs \<and>
       snd (call_all xs kw acc) =
         Inr (acc @ List.map_filter
                (\<lambda>i. case snd (call_impl i kw) of Inl e \<Rightarrow> None | Inr r \<Rightarrow> r) xs)
   | Some i \<Rightarrow>
       map fst (fst (call_all xs kw acc)) =
         takeWhile (\<lambda>i. \<not> isl (snd (call_impl i kw))) xs @ [i] \<and>
       (\<exists>e. snd (call_impl i kw) = Inl e \<and> snd (call_all xs kw acc) = Inl e)"
proof (induction xs arbitrary: acc)
  case Nil
  show ?case by (simp add: List.map_filter_simps)
next
  case (Cons x xs)
  obtain t out where c: "call_impl x kw = (t, out)" by (cases "call_impl x kw")
  have t: "map fst t = [x]" using call_impl_trace [of x kw] c by simp
  show ?case
  proof (cases out)
    case (Inl e)
    with c t show ?thesis by simp
  next
    case (Inr r)
    with c t Cons [of "case r of None \<Rightarrow> acc | Some v \<Rightarrow> acc @ [v]"] show ?thesis
      by (auto simp: List.map_filter_simps split: option.splits prod.splits)
  qed
qed

text \<open>
  C1. For every hook caller whose \<open>firstresult\<close> is false and every keyword-argument
  dictionary, dispatch visits the implementations in reverse registration order. When
  no implementation raises, every implementation is invoked, in that order, and the value
  returned is the list of the results that are not \<open>None\<close>, in that order (the result of
  the plugin registered last comes first; the list may be empty). When an implementation
  raises, the invocations are those up to and including the first that raises, in that
  order, and its exception is the outcome.
\<close>

theorem dispatch_collect_all:
  assumes "\<not> firstresult hc"
  shows "case find (\<lambda>i. isl (snd (call_impl i kw))) (rev (hookimpls hc)) of
     None \<Rightarrow> map fst (fst (HookCaller_call hc kw)) = rev (hookimpls hc) \<and>
       snd (HookCaller_call hc kw) =
         Inr (Collected (List.map_filter
                (\<lambda>i. case snd (call_impl i kw) of Inl e \<Rightarrow> None | Inr r \<Rightarrow> r)
                (rev (hookimpls hc))))
   | Some i \<Rightarrow>
       map fst (fst (HookCaller_call hc kw)) =
         takeWhile (\<lambda>i. \<not> isl (snd (call_impl i kw))) (rev (hookimpls hc)) @ [i] \<and>
       (\<exists>e. snd (call_impl i kw) = Inl e \<and> snd (HookCaller_call hc kw) = Inl e)"
  using assms call_all_find [where kw = kw and xs = "rev (hookimpls hc)" and acc = "[]"]
  by (auto simp: HookCaller_call_def split: option.splits prod.splits)

text \<open>
  Plugins \<open>A\<close>, \<open>B\<close>, \<open>C\<close> registered in that order and \<open>h(x=7, y=2)\<close>: \<open>C\<close>, \<open>B\<close>, \<open>A\<close>
  are invoked in that order and the results are those of \<open>C\<close> and \<open>A\<close> (\<open>B\<close> returns \<open>None\<close>).
\<close>

theorem dispatch_collect_all_witness:
  "\<not> firstresult ex_hook \<and>
   map fst (fst (HookCaller_call ex_hook ex_kw)) = [ex_implC, ex_implB, ex_implA] \<and>
   snd (HookCaller_call ex_hook ex_kw) = Inr (Collected [2, 7])"
proof -
  have h: "\<not> firstresult ex_hook" by (simp add: ex_hook_def)
  have c: "snd (call_impl ex_implC ex_kw) = Inr (Some 2)"
    "snd (call_impl ex_implB ex_kw) = Inr None"
    "snd (call_impl ex_implA ex_kw) = Inr (Some 7)"
    by (simp_all add: call_impl_def ex_defs)
  have l: "rev (hookimpls ex_hook) = [ex_implC, ex_implB, ex_implA]" by (simp add: ex_hook_def)
  show ?thesis
    using h dispatch_collect_all [OF h, of ex_kw]
    by (simp add: l c List.map_filter_simps)
qed

text \<open>
  C2. For every hook caller whose \<open>firstresult\<close> is true, dispatch visits the
  implementations in reverse registration order and stops at the first whose outcome is
  not \<open>None\<close>: the implementations invoked are those before it and itself, and its
  outcome (its result, or the exception it raised) is the outcome of the dispatch. When
  every implementation returns \<open>None\<close>, or none is registered, all are invoked and the
  dispatch returns \<open>None\<close>.
\<close>

theorem dispatch_firstresult:
  assumes "firstresult hc"
  shows "case find (\<lambda>i. snd (call_impl i kw) \<noteq> Inr None) (rev (hookimpls hc)) of
     None \<Rightarrow> map fst (fst (HookCaller_call hc kw)) = rev (hookimpls hc) \<and>
       snd (HookCaller_call hc kw) = Inr (Single None)
   | Some i \<Rightarrow>
       map fst (fst (HookCaller_call hc kw)) =
         takeWhile (\<lambda>i. snd (call_impl i kw) = Inr None) (rev (hookimpls hc)) @ [i] \<and>
       snd (HookCaller_call hc kw) = map_sum id Single (snd (call_impl i kw))"
  using assms call_first_find [where kw = kw and xs = "rev (hookimpls hc)"]
  by (auto simp: HookCaller_call_def split: option.splits prod.splits)

text \<open>
  With \<open>C\<close>, \<open>A\<close>, \<open>B\<close> registered in that order, \<open>B\<close> returns \<open>None\<close>, \<open>A\<close> returns 7 and
  \<open>C\<close> is not invoked; with no implementation the dispatch returns \<open>None\<close>.
\<close>

theorem dispatch_firstresult_witness:
  "firstresult (ex_hook\<lparr>hookimpls := [ex_implC, ex_implA, ex_implB], firstresult := True\<rparr>) \<and>
   HookCaller_call (ex_hook\<lparr>hookimpls := [ex_implC, ex_implA, ex_implB], firstresult := True\<rparr>)
     ex_kw = ([(ex_implB, [(''y'', 2)]), (ex_implA, [(''x'', 7)])], Inr (Single (Some 7))) \<and>
   HookCaller_call (ex_hook\<lparr>hookimpls := [], firstresult := True\<rparr>) ex_kw = ([], Inr (Single None))"
proof -
  let ?hc = "ex_hook\<lparr>hookimpls := [ex_implC, ex_implA, ex_implB], firstresult := True\<rparr>"
  have h: "firstresult ?hc" by simp
  show ?thesis
    using h dispatch_firstresult [OF h, of ex_kw]
    by (simp add: HookCaller_call_def call_impl_def ex_defs)
qed

section \<open>Unregistration\<close>

lemma keys_delete: "fst ` set (AList.delete k al) = fst ` set al - {k}"
  by (induction al) auto

text \<open>Removing the records of an unregistered plugin changes no hook caller.\<close>

lemma remove_plugin_hooks_id:
  assumes "hookimpls_registered pm" "\<not> is_registered pm p"
  shows "map (\<lambda>(attr_name, hc). (attr_name, remove_plugin hc p)) (hook pm) = hook pm"
proof (rule map_idI)
  fix x assume x: "x \<in> set (hook pm)"
  obtain an hc where xe: "x = (an, hc)" by (cases x)
  have "\<forall>h \<in> set (hookimpls hc). is_registered pm (plugin h)"
    using assms(1) x xe by (auto simp: hookimpls_registered_def list_all_iff)
  then have "\<forall>h \<in> set (hookimpls hc). ident (plugin h) \<noteq> ident p"
    using assms(2) unfolding is_registered_def by metis
  then have "filter (\<lambda>h. ident (plugin h) \<noteq> ident p) (hookimpls hc) = hookimpls hc"
    by (simp add: filter_id_conv)
  then show "(case x of (attr_name, hc) \<Rightarrow> (attr_name, remove_plugin hc p)) = x"
    by (simp add: xe remove_plugin_def)
qed

lemma ex_pm3_hookimpls_registered: "hookimpls_registered ex_pm3"
  by (simp add: hookimpls_registered_def is_registered_def ex_defs)

text \<open>
  C3, as the code has it. When the plugin argument is \<open>None\<close> or an object that is not
  registered, and the name argument is \<open>None\<close> or a name that the name table does not
  bind, \<open>unregister\<close> leaves the manager's tables and every hook caller's list as they are
  (in a state where every implementation record belongs to a registered plugin) and
  returns its plugin argument: \<open>None\<close> when no plugin object was supplied, the
  supplied object otherwise.
\<close>

theorem unregister_unresolved:
  assumes "case plg of None \<Rightarrow> True | Some p \<Rightarrow> \<not> is_registered pm p"
    and "case nm of None \<Rightarrow> True | Some n \<Rightarrow> map_of (name2plugin pm) n = None"
    and "hookimpls_registered pm"
  shows "unregister pm plg nm = (pm, plg)"
proof (cases plg)
  case None
  with assms(2) show ?thesis by (simp add: unregister_def split: option.splits)
next
  case (Some p)
  with assms(1) have nr: "\<not> is_registered pm p" by simp
  then have k: "ident p \<notin> fst ` set (plugin2name pm)" by (simp add: is_registered_def)
  then have pn: "map_of (plugin2name pm) (ident p) = None" by (simp add: map_of_eq_None_iff)
  show ?thesis
  proof (cases nm)
    case None
    then show ?thesis
      using Some k pn remove_plugin_hooks_id [OF assms(3) nr]
      by (simp add: unregister_def Let_def)
  next
    case (Some n)
    with assms(2) have "n \<notin> fst ` set (name2plugin pm)" by (simp add: map_of_eq_None_iff)
    then show ?thesis
      using Some \<open>plg = Some p\<close> k pn remove_plugin_hooks_id [OF assms(3) nr]
      by (simp add: unregister_def Let_def)
  qed
qed

theorem unregister_unresolved_witness:
  "unregister ex_pm3 (Some ex_D) (Some ''D'') = (ex_pm3, Some ex_D) \<and>
   unregister ex_pm3 None (Some ''D'') = (ex_pm3, None)"
proof -
  have h1: "case Some ex_D of None \<Rightarrow> True | Some p \<Rightarrow> \<not> is_registered ex_pm3 p"
    by (simp add: is_registered_def ex_defs)
  have h1': "case None :: (int, string) plugin_obj option of None \<Rightarrow> True
      | Some p \<Rightarrow> \<not> is_registered ex_pm3 p"
    by simp
  have h2: "case Some ''D'' of None \<Rightarrow> True | Some n \<Rightarrow> map_of (name2plugin ex_pm3) n = None"
    by (simp add: ex_defs)
  show ?thesis
    using unregister_unresolved [OF h1 h2 ex_pm3_hookimpls_registered]
      unregister_unresolved [OF h1' h2 ex_pm3_hookimpls_registered]
    by simp
qed

text \<open>
  The claim as stated fails: \<open>D\<close> is not registered and the name \<open>D\<close> is not bound, yet
  \<open>unregister(D, "D")\<close> returns \<open>D\<close>, not \<open>None\<close>.
\<close>

theorem unregister_unresolved_counterexample:
  "\<not> is_registered ex_pm3 ex_D \<and> map_of (name2plugin ex_pm3) ''D'' = None \<and>
   snd (unregister ex_pm3 (Some ex_D) (Some ''D'')) = Some ex_D \<and>
   snd (unregister ex_pm3 (Some ex_D) (Some ''D'')) \<noteq> None"
  by (simp add: ex_defs manager_defs)

text \<open>
  C6. For every plugin \<open>p\<close> that is registered (its identity is bound, to the name \<open>pn\<close>)
  and every call of \<open>unregister\<close> that resolves to it, by the object or by a name bound to
  it: the call returns \<open>p\<close>; the identity binding of \<open>p\<close> is removed and no other; the name
  \<open>pn\<close> is no longer bound and, in a state whose name table is consistent with the
  identity table, no name is bound to \<open>p\<close> any more; and every hook caller keeps its place
  and loses exactly the records of \<open>p\<close>, the remaining records in their order.
\<close>

theorem unregister_removes:
  assumes "plg = Some p \<or> (plg = None \<and> nm = Some n \<and> map_of (name2plugin pm) n = Some p)"
    and "map_of (plugin2name pm) (ident p) = Some pn"
    and "unregister pm plg nm = (pm', r)"
  shows "r = Some p \<and> \<not> is_registered pm' p \<and>
    plugin2name pm' = AList.delete (ident p) (plugin2name pm) \<and>
    map_of (name2plugin pm') pn = None \<and>
    (names_registered pm \<longrightarrow> list_all (\<lambda>(k, q). ident q \<noteq> ident p) (name2plugin pm')) \<and>
    hook pm' =
      map (\<lambda>(attr_name, hc).
             (attr_name, hc\<lparr>hookimpls := filter (\<lambda>h. ident (plugin h) \<noteq> ident p) (hookimpls hc)\<rparr>))
        (hook pm)"
proof -
  have t: "(case plg of None \<Rightarrow> (case nm of Some n \<Rightarrow> map_of (name2plugin pm) n | None \<Rightarrow> None)
            | Some p \<Rightarrow> Some p) = Some p"
    using assms(1) by auto
  define n2p where "n2p = (case nm of Some n \<Rightarrow> if Some n \<noteq> Some pn
         then AList.delete n (AList.delete pn (name2plugin pm)) else AList.delete pn (name2plugin pm)
       | None \<Rightarrow> AList.delete pn (name2plugin pm))"
  have pm': "pm' = pm\<lparr>name2plugin := n2p, plugin2name := AList.delete (ident p) (plugin2name pm),
       hook := map (\<lambda>(attr_name, hc). (attr_name, remove_plugin hc p)) (hook pm)\<rparr>"
    and r: "r = Some p"
    using assms(3) assms(2) t by (auto simp: unregister_def Let_def n2p_def split: option.splits)
  have sub: "set n2p \<subseteq> set (AList.delete pn (name2plugin pm))"
    by (auto simp: n2p_def AList.delete_eq split: option.splits)
  have a: "\<not> is_registered pm' p"
    by (simp add: pm' is_registered_def keys_delete)
  have b: "map_of (name2plugin pm') pn = None"
    using sub by (force simp: pm' map_of_eq_None_iff AList.delete_eq)
  have c: "list_all (\<lambda>(k, q). ident q \<noteq> ident p) (name2plugin pm')" if inv: "names_registered pm"
  proof -
    have "ident q \<noteq> ident p" if m: "(k, q) \<in> set n2p" for k q
    proof
      assume e: "ident q = ident p"
      from m sub have m': "(k, q) \<in> set (name2plugin pm)" "k \<noteq> pn"
        by (auto simp: AList.delete_eq)
      with inv have "map_of (plugin2name pm) (ident q) = Some k"
        by (auto simp: names_registered_def list_all_iff)
      with e assms(2) m'(2) show False by simp
    qed
    then show ?thesis by (auto simp: pm' list_all_iff)
  qed
  show ?thesis using r a b c by (simp add: pm' remove_plugin_def)
qed

text \<open>
  Unregistering \<open>B\<close> from the manager of \<open>A\<close>, \<open>B\<close>, \<open>C\<close>, by the object and by the name:
  the records of \<open>A\<close> and \<open>C\<close> remain, in that order.
\<close>

theorem unregister_removes_witness:
  "unregister ex_pm3 (Some ex_B) None =
     (ex_pm3\<lparr>name2plugin := [(''A'', ex_A), (''C'', ex_C)],
              plugin2name := [(1, ''A''), (3, ''C'')],
              hook := [(''h'', ex_hook\<lparr>hookimpls := [ex_implA, ex_implC]\<rparr>)]\<rparr>, Some ex_B) \<and>
   unregister ex_pm3 None (Some ''B'') = unregister ex_pm3 (Some ex_B) None \<and>
   \<not> is_registered (fst (unregister ex_pm3 (Some ex_B) None)) ex_B"
proof -
  let ?pm' = "ex_pm3\<lparr>name2plugin := [(''A'', ex_A), (''C'', ex_C)],
              plugin2name := [(1, ''A''), (3, ''C'')],
              hook := [(''h'', ex_hook\<lparr>hookimpls := [ex_implA, ex_implC]\<rparr>)]\<rparr>"
  have t: "Some ex_B = Some ex_B \<or>
      (Some ex_B = None \<and> None = Some ''B'' \<and> map_of (name2plugin ex_pm3) ''B'' = Some ex_B)"
    by simp
  have reg: "map_of (plugin2name ex_pm3) (ident ex_B) = Some ''B''"
    by (simp add: ex_defs)
  have u: "unregister ex_pm3 (Some ex_B) None = (?pm', Some ex_B)"
    by (simp add: ex_defs manager_defs)
  have u': "unregister ex_pm3 None (Some ''B'') = (?pm', Some ex_B)"
    by (simp add: ex_defs manager_defs)
  have "\<not> is_registered ?pm' ex_B"
    using unregister_removes [OF t reg u] by blast
  then show ?thesis by (simp add: u u')
qed

text \<open>
  C10. When \<open>a\<close> and \<open>b\<close> are registered under the distinct names \<open>nA\<close> and \<open>nB\<close>,
  \<open>unregister(a, nB)\<close> returns \<open>a\<close>, unregisters \<open>a\<close> and removes the binding of \<open>nB\<close> too:
  \<open>b\<close> is still registered by identity, under the name \<open>nB\<close> in the identity table, but
  the name table and \<open>list_name_plugin\<close> no longer have \<open>nB\<close>.
\<close>

theorem unregister_plugin_other_name:
  assumes "map_of (plugin2name pm) (ident a) = Some nA"
    and "map_of (plugin2name pm) (ident b) = Some nB"
    and "map_of (name2plugin pm) nA = Some a"
    and "map_of (name2plugin pm) nB = Some b"
    and "nA \<noteq> nB"
    and "unregister pm (Some a) (Some nB) = (pm', r)"
  shows "r = Some a \<and> \<not> is_registered pm' a \<and> map_of (name2plugin pm') nA = None \<and>
    is_registered pm' b \<and> map_of (plugin2name pm') (ident b) = Some nB \<and>
    map_of (name2plugin pm') nB = None \<and> nB \<notin> fst ` set (list_name_plugin pm')"
proof -
  have ne: "ident a \<noteq> ident b" using assms(1,2,5) by auto
  have pm': "pm' = pm\<lparr>name2plugin := AList.delete nB (AList.delete nA (name2plugin pm)),
       plugin2name := AList.delete (ident a) (plugin2name pm),
       hook := map (\<lambda>(attr_name, hc). (attr_name, remove_plugin hc a)) (hook pm)\<rparr>"
    and r: "r = Some a"
    using assms(1,5,6) by (auto simp: unregister_def Let_def)
  have kb: "ident b \<in> fst ` set (plugin2name pm)"
    using assms(2) by (metis map_of_eq_None_iff option.distinct(1))
  show ?thesis
    using r ne kb assms(2)
    by (simp add: pm' is_registered_def keys_delete list_name_plugin_def delete_conv')
qed

theorem unregister_plugin_other_name_witness:
  "unregister ex_pm3 (Some ex_A) (Some ''B'') =
     (ex_pm3\<lparr>name2plugin := [(''C'', ex_C)],
              plugin2name := [(2, ''B''), (3, ''C'')],
              hook := [(''h'', ex_hook\<lparr>hookimpls := [ex_implB, ex_implC]\<rparr>)]\<rparr>, Some ex_A) \<and>
   is_registered (fst (unregister ex_pm3 (Some ex_A) (Some ''B''))) ex_B \<and>
   map fst (list_name_plugin (fst (unregister ex_pm3 (Some ex_A) (Some ''B'')))) = [''C'']"
proof -
  let ?pm' = "ex_pm3\<lparr>name2plugin := [(''C'', ex_C)],
              plugin2name := [(2, ''B''), (3, ''C'')],
              hook := [(''h'', ex_hook\<lparr>hookimpls := [ex_implB, ex_implC]\<rparr>)]\<rparr>"
  have h: "map_of (plugin2name ex_pm3) (ident ex_A) = Some ''A''"
    "map_of (plugin2name ex_pm3) (ident ex_B) = Some ''B''"
    "map_of (name2plugin ex_pm3) ''A'' = Some ex_A"
    "map_of (name2plugin ex_pm3) ''B'' = Some ex_B"
    "''A'' \<noteq> ''B''"
    by (simp_all add: ex_defs)
  have u: "unregister ex_pm3 (Some ex_A) (Some ''B'') = (?pm', Some ex_A)"
    by (simp add: ex_defs manager_defs)
  have "is_registered ?pm' ex_B"
    using unregister_plugin_other_name [OF h u] by blast
  then show ?thesis by (simp add: u list_name_plugin_def)
qed

section \<open>Registration\<close>


lemma register_attrs_seen:
  "snd (snd (register_attrs p pn cattrs items (seen, hooks))) = None \<Longrightarrow>
   fst (register_attrs p pn cattrs items (seen, hooks)) = seen \<union> fst ` set items"
  by (induction p pn cattrs items "(seen, hooks)" arbitrary: seen hooks rule: register_attrs.induct)
    (auto split: option.splits if_splits)





lemma register_mro_seen:
  "snd (snd (register_mro p pn cattrs classes (seen, hooks))) = None \<Longrightarrow>
   fst (register_mro p pn cattrs classes (seen, hooks)) = seen \<union> fst ` set (concat classes)"
proof (induction classes arbitrary: seen hooks)
  case Nil
  show ?case by simp
next
  case (Cons k classes)
  obtain s h e where r: "register_attrs p pn cattrs k (seen, hooks) = (s, h, e)"
    by (cases "register_attrs p pn cattrs k (seen, hooks)")
  from Cons.prems r have e: "e = None" by (cases e) simp_all
  have s: "s = seen \<union> fst ` set k"
    using register_attrs_seen [of p pn cattrs k seen hooks] r e by simp
  from Cons.prems have "snd (snd (register_mro p pn cattrs classes (s, h))) = None"
    by (simp add: r e)
  from Cons.IH [OF this] show ?case by (simp add: r e s Un_assoc image_Un)
qed



lemma register_registered:
  "is_registered pm p \<Longrightarrow> register pm p nm = (pm, Inr None)"
  by (simp add: register_def is_registered_def)

lemma register_fresh:
  "\<not> is_registered pm p \<Longrightarrow>
   register pm p nm =
     (pm\<lparr>name2plugin := AList.update (name_or_canonical nm p) p (name2plugin pm),
         plugin2name := AList.update (ident p) (name_or_canonical nm p) (plugin2name pm),
         hook := fst (snd (register_mro p (name_or_canonical nm p) (hook_class_attrs pm) (mro p)
                   ({}, hook pm)))\<rparr>,
      case snd (snd (register_mro p (name_or_canonical nm p) (hook_class_attrs pm) (mro p)
                   ({}, hook pm))) of
        None \<Rightarrow> Inr (Some (name_or_canonical nm p))
      | Some e \<Rightarrow> Inl e)"
  by (simp add: register_def is_registered_def Let_def split: prod.splits option.splits)


section \<open>Invariants of the manager state\<close>

lemma set_update_subset: "set (AList.update k v al) \<subseteq> insert (k, v) (set al)"
  by (induction al) auto

lemma register_attrs_impls:
  assumes "\<forall>(an, hc) \<in> set hooks. \<forall>h \<in> set (hookimpls hc). P (plugin h)" and "P p"
  shows "\<forall>(an, hc) \<in> set (fst (snd (register_attrs p pn cattrs items (seen, hooks)))).
           \<forall>h \<in> set (hookimpls hc). P (plugin h)"
  using assms(1)
proof (induction items arbitrary: seen hooks)
  case Nil
  then show ?case by simp
next
  case (Cons x items)
  obtain k r where x: "x = (k, r)" by (cases x)
  have upd: "\<forall>(an, hc) \<in> set (AList.update k
        (add_hookimpl (case map_of hooks k of None \<Rightarrow> new_HookCaller k False | Some hc \<Rightarrow> hc)
           (new_HookImpl m p pn)) hooks).
      \<forall>h \<in> set (hookimpls hc). P (plugin h)" for m
  proof -
    have "\<forall>h \<in> set (hookimpls (case map_of hooks k of None \<Rightarrow> new_HookCaller k False | Some hc \<Rightarrow> hc)).
        P (plugin h)"
      using Cons.prems by (auto simp: new_HookCaller_def split: option.splits dest!: map_of_SomeD)
    then have "\<forall>h \<in> set (hookimpls (add_hookimpl
        (case map_of hooks k of None \<Rightarrow> new_HookCaller k False | Some hc \<Rightarrow> hc)
        (new_HookImpl m p pn))). P (plugin h)"
      using assms(2) by (auto simp: add_hookimpl_def new_HookImpl_def)
    then show ?thesis
      using Cons.prems set_update_subset [of k _ hooks] by blast
  qed
  have "\<exists>seen' hooks'.
      (register_attrs p pn cattrs (x # items) (seen, hooks) =
         register_attrs p pn cattrs items (seen', hooks') \<or>
       register_attrs p pn cattrs (x # items) (seen, hooks) =
         (seen', hooks', Some (AttributeError k))) \<and>
      (\<forall>(an, hc) \<in> set hooks'. \<forall>h \<in> set (hookimpls hc). P (plugin h))"
  proof (cases "k \<notin> seen \<and> is_callable (unwrap r) \<and> impl_attr (unwrap r)")
    case False
    then have "register_attrs p pn cattrs (x # items) (seen, hooks) =
        register_attrs p pn cattrs items (if k \<in> seen then seen else insert k seen, hooks)"
      by (auto simp: x)
    with Cons.prems show ?thesis by blast
  next
    case True
    show ?thesis
    proof (cases "attr p k")
      case None
      with True have "register_attrs p pn cattrs (x # items) (seen, hooks) =
          register_attrs p pn cattrs items (insert k seen, hooks)"
        by (simp add: x)
      with Cons.prems show ?thesis by blast
    next
      case (Some m)
      show ?thesis
      proof (cases "k \<in> set cattrs")
        case c: True
        with True Some have "register_attrs p pn cattrs (x # items) (seen, hooks) =
            (insert k seen, hooks, Some (AttributeError k))"
          by (simp add: x)
        with Cons.prems show ?thesis by blast
      next
        case c: False
        with True Some have "register_attrs p pn cattrs (x # items) (seen, hooks) =
            register_attrs p pn cattrs items (insert k seen, AList.update k
              (add_hookimpl (case map_of hooks k of None \<Rightarrow> new_HookCaller k False | Some hc \<Rightarrow> hc)
                 (new_HookImpl m p pn)) hooks)"
          by (simp add: x)
        with upd [of m] show ?thesis by blast
      qed
    qed
  qed
  then obtain seen' hooks' where
    e: "register_attrs p pn cattrs (x # items) (seen, hooks) =
          register_attrs p pn cattrs items (seen', hooks') \<or>
        register_attrs p pn cattrs (x # items) (seen, hooks) =
          (seen', hooks', Some (AttributeError k))"
    and h: "\<forall>(an, hc) \<in> set hooks'. \<forall>h \<in> set (hookimpls hc). P (plugin h)"
    by blast
  from e show ?case
  proof
    assume a: "register_attrs p pn cattrs (x # items) (seen, hooks) =
          register_attrs p pn cattrs items (seen', hooks')"
    show ?thesis unfolding a using h by (rule Cons.IH)
  next
    assume a: "register_attrs p pn cattrs (x # items) (seen, hooks) =
          (seen', hooks', Some (AttributeError k))"
    show ?thesis unfolding a using h by simp
  qed
qed

lemma register_mro_impls:
  assumes "\<forall>(an, hc) \<in> set hooks. \<forall>h \<in> set (hookimpls hc). P (plugin h)" and "P p"
  shows "\<forall>(an, hc) \<in> set (fst (snd (register_mro p pn cattrs classes (seen, hooks)))).
           \<forall>h \<in> set (hookimpls hc). P (plugin h)"
  using assms(1)
proof (induction classes arbitrary: seen hooks)
  case Nil
  then show ?case by simp
next
  case (Cons k classes)
  obtain s h e where r: "register_attrs p pn cattrs k (seen, hooks) = (s, h, e)"
    by (cases "register_attrs p pn cattrs k (seen, hooks)")
  have h: "\<forall>(an, hc) \<in> set h. \<forall>h \<in> set (hookimpls hc). P (plugin h)"
    using register_attrs_impls [OF Cons.prems assms(2), of pn cattrs k seen] r by simp
  show ?case
  proof (cases e)
    case None
    have res: "register_mro p pn cattrs (k # classes) (seen, hooks) =
        register_mro p pn cattrs classes (s, h)"
      by (simp add: r None)
    show ?thesis unfolding res using h by (rule Cons.IH)
  next
    case (Some err)
    with h show ?thesis by (simp add: r)
  qed
qed

lemma register_hookimpls_registered:
  assumes "hookimpls_registered pm"
  shows "hookimpls_registered (fst (register pm p nm))"
proof (cases "is_registered pm p")
  case True
  with assms show ?thesis by (simp add: register_registered)
next
  case False
  let ?P = "\<lambda>q. ident q \<in> insert (ident p) (fst ` set (plugin2name pm))"
  have "\<forall>(an, hc) \<in> set (hook pm). \<forall>h \<in> set (hookimpls hc). ?P (plugin h)"
    using assms by (auto simp: hookimpls_registered_def is_registered_def list_all_iff)
  moreover have "?P p" by simp
  ultimately have "\<forall>(an, hc) \<in> set (fst (snd (register_mro p (name_or_canonical nm p)
        (hook_class_attrs pm) (mro p) ({}, hook pm)))).
           \<forall>h \<in> set (hookimpls hc). ?P (plugin h)"
    by (rule register_mro_impls)
  then show ?thesis
    by (simp add: register_fresh [OF False] hookimpls_registered_def is_registered_def
        list_all_iff dom_update case_prod_beta)
qed

lemma unregister_hookimpls_registered:
  assumes "hookimpls_registered pm"
  shows "hookimpls_registered (fst (unregister pm plg nm))"
proof -
  have *: "hookimpls_registered
      (pm\<lparr>name2plugin := n2p, plugin2name := AList.delete (ident p) (plugin2name pm),
          hook := map (\<lambda>(attr_name, hc). (attr_name, remove_plugin hc p)) (hook pm)\<rparr>)" for n2p p
    using assms
    by (auto simp: hookimpls_registered_def is_registered_def list_all_iff keys_delete
        remove_plugin_def)
  show ?thesis
    using assms * by (auto simp: unregister_def Let_def split: option.splits)
qed

lemma names_registeredD:
  "names_registered pm \<Longrightarrow> (n, q) \<in> set (name2plugin pm) \<Longrightarrow>
   map_of (plugin2name pm) (ident q) = Some n"
  by (auto simp: names_registered_def list_all_iff)

lemma unregister_names_registered:
  assumes "names_registered pm"
  shows "names_registered (fst (unregister pm plg nm))"
proof -
  have *: "names_registered
      (pm\<lparr>name2plugin := n2p, plugin2name := AList.delete (ident p) (plugin2name pm),
          hook := hs\<rparr>)"
    if sub: "set n2p \<subseteq> set (name2plugin pm)" and d: "distinct (map fst n2p)"
      and gone: "\<And>n. map_of (plugin2name pm) (ident p) = Some n \<Longrightarrow> n \<notin> fst ` set n2p"
    for n2p p hs
  proof -
    have "map_of (AList.delete (ident p) (plugin2name pm)) (ident q) = Some n"
      if m: "(n, q) \<in> set n2p" for n q
    proof -
      from m sub have "(n, q) \<in> set (name2plugin pm)" by blast
      with assms have q: "map_of (plugin2name pm) (ident q) = Some n"
        by (rule names_registeredD)
      have "ident q \<noteq> ident p"
      proof
        assume "ident q = ident p"
        with q have "map_of (plugin2name pm) (ident p) = Some n" by simp
        from gone [OF this] m show False by force
      qed
      with q show ?thesis by (simp add: delete_conv')
    qed
    then show ?thesis
      using assms d by (auto simp: names_registered_def list_all_iff distinct_delete)
  qed
  have d0: "distinct (map fst (name2plugin pm))" using assms by (simp add: names_registered_def)
  show ?thesis
  proof (cases "case plg of None \<Rightarrow> (case nm of Some n \<Rightarrow> map_of (name2plugin pm) n | None \<Rightarrow> None)
                  | Some p \<Rightarrow> Some p")
    case None
    with assms show ?thesis by (simp add: unregister_def)
  next
    case (Some p)
    define n2p1 where "n2p1 = (case map_of (plugin2name pm) (ident p) of
                            Some n \<Rightarrow> AList.delete n (name2plugin pm)
                          | None \<Rightarrow> name2plugin pm)"
    define n2p2 where "n2p2 = (case nm of
                            Some n \<Rightarrow> if Some n \<noteq> map_of (plugin2name pm) (ident p)
                               then AList.delete n n2p1 else n2p1
                          | None \<Rightarrow> n2p1)"
    have s1: "set n2p1 \<subseteq> set (name2plugin pm)"
      and g1: "\<And>n. map_of (plugin2name pm) (ident p) = Some n \<Longrightarrow> n \<notin> fst ` set n2p1"
      by (auto simp: n2p1_def AList.delete_eq split: option.splits)
    have d1: "distinct (map fst n2p1)"
      using d0 by (simp add: n2p1_def distinct_delete split: option.splits)
    have s2: "set n2p2 \<subseteq> set n2p1"
      by (auto simp: n2p2_def AList.delete_eq split: option.splits)
    have d2: "distinct (map fst n2p2)"
      using d1 by (simp add: n2p2_def distinct_delete split: option.splits)
    have g2: "\<And>n. map_of (plugin2name pm) (ident p) = Some n \<Longrightarrow> n \<notin> fst ` set n2p2"
      using g1 s2 by blast
    have "fst (unregister pm plg nm) =
        pm\<lparr>name2plugin := n2p2, plugin2name := AList.delete (ident p) (plugin2name pm),
           hook := map (\<lambda>(attr_name, hc). (attr_name, remove_plugin hc p)) (hook pm)\<rparr>"
      using Some by (auto simp: unregister_def Let_def n2p1_def n2p2_def split: option.splits)
    then show ?thesis
      using * [of n2p2 p] s1 s2 d2 g2 by auto
  qed
qed

lemma register_names_registered:
  assumes "names_registered pm"
  shows "names_registered (fst (register pm p nm))"
proof (cases "is_registered pm p")
  case True
  with assms show ?thesis by (simp add: register_registered)
next
  case False
  then have k: "ident p \<notin> fst ` set (plugin2name pm)" by (simp add: is_registered_def)
  let ?n = "name_or_canonical nm p"
  have "map_of (AList.update (ident p) ?n (plugin2name pm)) (ident q) = Some n"
    if m: "(n, q) \<in> set (AList.update ?n p (name2plugin pm))" for n q
  proof (cases "(n, q) = (?n, p)")
    case True
    then show ?thesis by (simp add: update_conv')
  next
    case False
    with m set_update_subset [of ?n p "name2plugin pm"] have "(n, q) \<in> set (name2plugin pm)"
      by blast
    with assms have q: "map_of (plugin2name pm) (ident q) = Some n"
      by (rule names_registeredD)
    then have "ident q \<in> fst ` set (plugin2name pm)"
      by (metis map_of_eq_None_iff option.distinct(1))
    with k have "ident q \<noteq> ident p" by metis
    with q show ?thesis by (simp add: update_conv')
  qed
  then show ?thesis
    using assms
    by (auto simp: register_fresh [OF False] names_registered_def list_all_iff distinct_update)
qed

lemma apply_operation_invariants:
  "names_registered pm \<Longrightarrow> names_registered (apply_operation pm x)"
  "hookimpls_registered pm \<Longrightarrow> hookimpls_registered (apply_operation pm x)"
  by (cases x; simp add: register_names_registered unregister_names_registered
      register_hookimpls_registered unregister_hookimpls_registered)+

lemma run_operations_invariants:
  "names_registered pm \<Longrightarrow> names_registered (run_operations pm xs)"
  "hookimpls_registered pm \<Longrightarrow> hookimpls_registered (run_operations pm xs)"
  by (induction xs arbitrary: pm) (simp_all add: apply_operation_invariants)

text \<open>
  C8, as the code has it. After every sequence of \<open>register\<close> and \<open>unregister\<close> calls on a
  fresh manager, no identity is bound twice in the identity table, no name is bound twice
  in the name table, and every binding of the name table points to a plugin whose
  identity is bound, in the identity table, to that same name: a named plugin is
  registered, under that name, and two names never name the same plugin.
\<close>

theorem reachable_names_registered:
  "names_registered (run_operations (new_PluginManager pn) xs)"
  by (rule run_operations_invariants) (simp add: names_registered_def new_PluginManager_def)

theorem reachable_names_registered_witness:
  "names_registered
     (run_operations (new_PluginManager ''jac'')
        [Register ex_A None, Register ex_A2 None, Unregister (Some ex_A) None]) \<and>
   plugin2name (run_operations (new_PluginManager ''jac'')
        [Register ex_A None, Register ex_A2 None, Unregister (Some ex_A) None]) = [(5, ''A'')] \<and>
   name2plugin (run_operations (new_PluginManager ''jac'')
        [Register ex_A None, Register ex_A2 None, Unregister (Some ex_A) None]) = []"
  using reachable_names_registered
    [of "''jac''" "[Register ex_A None, Register ex_A2 None, Unregister (Some ex_A) None]"]
  by (simp add: ex_defs manager_defs)

text \<open>
  The claim as stated fails in the other direction. Two instances of one class have the
  same canonical name: after both are registered, both identities are bound to the name
  \<open>A\<close>, and the name table binds \<open>A\<close> to the second instance only.
\<close>

theorem reachable_names_registered_counterexample:
  "plugin2name (run_operations ex_pm0 [Register ex_A None, Register ex_A2 None]) =
     [(1, ''A''), (5, ''A'')] \<and>
   name2plugin (run_operations ex_pm0 [Register ex_A None, Register ex_A2 None]) =
     [(''A'', ex_A2)] \<and>
   ident ex_A \<noteq> ident ex_A2 \<and>
   \<not> identities_named (run_operations ex_pm0 [Register ex_A None, Register ex_A2 None])"
  by (simp add: identities_named_def ex_defs manager_defs)

section \<open>Registering a plugin twice\<close>










section \<open>Hook specifications\<close>







section \<open>Loading entry points\<close>













lemma get_hookimpls_eq: "get_hookimpls hc = hookimpls hc"
  by (simp add: get_hookimpls_def)

end
